theory Spec2Isabelle
  imports Main "HOL-Library.List_Lexorder" "HOL-Library.Char_ord"
begin

section \<open>check\_games.py: council matchups, announced once\<close>

text \<open>
  The script fetches two scoreboards, keeps the events whose two teams both resolve to a
  council school of the registry, posts one message per kept event to a webhook, and
  stores the ids of the posted events in the body of an issue.

  Python values are modelled as follows. A \<open>str\<close> is a \<open>string\<close>; one \<open>char\<close> stands
  for one code point in the range U+0000 to U+00FF. A value decoded from JSON is a
  \<open>json\<close>; floating point numbers are left out. A \<open>dict\<close> decoded from JSON is an
  association list in the order of its keys. Every exception the script can raise is a
  value \<open>Inl e\<close> of a sum type.
\<close>

subsection \<open>Python values\<close>

datatype error =
    AttributeError | IndexError | KeyError | TypeError | ValueError
  | JSONDecodeError | HTTPError | RequestException

datatype json =
    JNull
  | JBool bool
  | JInt int
  | JStr string
  | JArr "json list"
  | JObj "(string \<times> json) list"

text \<open>Truth value testing, as \<open>if v\<close> and \<open>a or b\<close> do it.\<close>

fun truthy :: "json \<Rightarrow> bool" where
  "truthy JNull = False"
| "truthy (JBool b) = b"
| "truthy (JInt n) = (n \<noteq> 0)"
| "truthy (JStr s) = (s \<noteq> [])"
| "truthy (JArr xs) = (xs \<noteq> [])"
| "truthy (JObj kvs) = (kvs \<noteq> [])"

definition py_or :: "json \<Rightarrow> json \<Rightarrow> json" where
  "py_or a b = (if truthy a then a else b)"

text \<open>\<open>d.get(k, default)\<close>: only a dict has the method.\<close>

fun dict_get :: "json \<Rightarrow> string \<Rightarrow> json \<Rightarrow> error + json" where
  "dict_get (JObj kvs) k dflt = Inr (case map_of kvs k of None \<Rightarrow> dflt | Some v \<Rightarrow> v)"
| "dict_get _ k dflt = Inl AttributeError"

text \<open>\<open>len(v)\<close>, \<open>v[0]\<close>, \<open>v[1]\<close> and \<open>for x in v\<close> on a decoded value.\<close>

fun py_len :: "json \<Rightarrow> error + nat" where
  "py_len (JArr xs) = Inr (length xs)"
| "py_len (JStr s) = Inr (length s)"
| "py_len (JObj kvs) = Inr (length kvs)"
| "py_len _ = Inl TypeError"

fun py_index :: "json \<Rightarrow> nat \<Rightarrow> error + json" where
  "py_index (JArr xs) i = (if i < length xs then Inr (xs ! i) else Inl IndexError)"
| "py_index (JStr s) i = (if i < length s then Inr (JStr [s ! i]) else Inl IndexError)"
| "py_index (JObj kvs) i = Inl KeyError"
| "py_index _ i = Inl TypeError"

fun py_iter :: "json \<Rightarrow> error + json list" where
  "py_iter (JArr xs) = Inr xs"
| "py_iter (JStr s) = Inr (map (\<lambda>c. JStr [c]) s)"
| "py_iter (JObj kvs) = Inr (map (\<lambda>kv. JStr (fst kv)) kvs)"
| "py_iter _ = Inl TypeError"

subsection \<open>\<open>str(v)\<close>\<close>

definition digit_char :: "nat \<Rightarrow> char" where
  "digit_char d = char_of (48 + d)"

fun show_nat :: "nat \<Rightarrow> string" where
  "show_nat n = (if n < 10 then [digit_char n] else show_nat (n div 10) @ [digit_char (n mod 10)])"

declare show_nat.simps [simp del]

definition show_int :: "int \<Rightarrow> string" where
  "show_int i = (if i < 0 then CHR ''-'' # show_nat (nat (- i)) else show_nat (nat i))"

definition hex_char :: "nat \<Rightarrow> char" where
  "hex_char d = (if d < 10 then char_of (48 + d) else char_of (87 + d))"

definition hex2 :: "char \<Rightarrow> string" where
  "hex2 c = [hex_char (of_char c div 16), hex_char (of_char c mod 16)]"

text \<open>
  \<open>repr\<close> of a \<open>str\<close>, which \<open>str\<close> of a list or dict uses for the strings inside:
  double quotes when the text has a single quote and no double quote, single quotes
  otherwise; backslash escapes for the quote, the backslash, tab, newline, return and
  the code points that are not printable.
\<close>

definition printable :: "char \<Rightarrow> bool" where
  "printable c = (let n = (of_char c :: nat) in
     (32 \<le> n \<and> n < 127) \<or> (161 \<le> n \<and> n \<noteq> 173))"

definition repr_char :: "char \<Rightarrow> char \<Rightarrow> string" where
  "repr_char q c =
     (if c = q \<or> c = CHR 0x5C then [CHR 0x5C, c]
      else if c = CHR 0x09 then [CHR 0x5C, CHR ''t'']
      else if c = CHR 0x0A then [CHR 0x5C, CHR ''n'']
      else if c = CHR 0x0D then [CHR 0x5C, CHR ''r'']
      else if printable c then [c]
      else [CHR 0x5C, CHR ''x''] @ hex2 c)"

definition repr_str :: "string \<Rightarrow> string" where
  "repr_str s =
     (let q = (if CHR 0x27 \<in> set s \<and> CHR 0x22 \<notin> set s then CHR 0x22 else CHR 0x27)
      in [q] @ concat (map (repr_char q) s) @ [q])"

fun join :: "string \<Rightarrow> string list \<Rightarrow> string" where
  "join sep [] = []"
| "join sep [x] = x"
| "join sep (x # y # ys) = x @ sep @ join sep (y # ys)"

fun py_repr :: "json \<Rightarrow> string"
  and py_repr_list :: "json list \<Rightarrow> string list"
  and py_repr_items :: "(string \<times> json) list \<Rightarrow> string list" where
  "py_repr JNull = ''None''"
| "py_repr (JBool b) = (if b then ''True'' else ''False'')"
| "py_repr (JInt n) = show_int n"
| "py_repr (JStr s) = repr_str s"
| "py_repr (JArr xs) = ''['' @ join '', '' (py_repr_list xs) @ '']''"
| "py_repr (JObj kvs) = ''{'' @ join '', '' (py_repr_items kvs) @ ''}''"
| "py_repr_list [] = []"
| "py_repr_list (x # xs) = py_repr x # py_repr_list xs"
| "py_repr_items [] = []"
| "py_repr_items (kv # kvs) = (repr_str (fst kv) @ '': '' @ py_repr (snd kv)) # py_repr_items kvs"

definition py_str :: "json \<Rightarrow> string" where
  "py_str v = (case v of JStr s \<Rightarrow> s | _ \<Rightarrow> py_repr v)"

subsection \<open>Exceptions\<close>

text \<open>A statement that raises ends the computation: the next one runs on a result only.\<close>

definition bind_e :: "error + 'a \<Rightarrow> ('a \<Rightarrow> error + 'b) \<Rightarrow> error + 'b" where
  "bind_e m f = (case m of Inl e \<Rightarrow> Inl e | Inr x \<Rightarrow> f x)"

subsection \<open>The name normalizer\<close>

text \<open>
  \<open>str.lower\<close> and \<open>str.isspace\<close> on the code points below U+0100. The capital
  letters are A to Z and U+00C0 to U+00DE without the multiplication sign U+00D7; the
  small letter of each is 32 code points above it. White space is U+0009 to U+000D,
  U+001C to U+0020, U+0085 and U+00A0.
\<close>

definition capitals :: string where
  "capitals =
     ''ABCDEFGHIJKLMNOPQRSTUVWXYZ'' @
     [CHR 0xC0, CHR 0xC1, CHR 0xC2, CHR 0xC3, CHR 0xC4, CHR 0xC5, CHR 0xC6, CHR 0xC7,
      CHR 0xC8, CHR 0xC9, CHR 0xCA, CHR 0xCB, CHR 0xCC, CHR 0xCD, CHR 0xCE, CHR 0xCF,
      CHR 0xD0, CHR 0xD1, CHR 0xD2, CHR 0xD3, CHR 0xD4, CHR 0xD5, CHR 0xD6, CHR 0xD8,
      CHR 0xD9, CHR 0xDA, CHR 0xDB, CHR 0xDC, CHR 0xDD, CHR 0xDE]"

definition smalls :: string where
  "smalls =
     ''abcdefghijklmnopqrstuvwxyz'' @
     [CHR 0xE0, CHR 0xE1, CHR 0xE2, CHR 0xE3, CHR 0xE4, CHR 0xE5, CHR 0xE6, CHR 0xE7,
      CHR 0xE8, CHR 0xE9, CHR 0xEA, CHR 0xEB, CHR 0xEC, CHR 0xED, CHR 0xEE, CHR 0xEF,
      CHR 0xF0, CHR 0xF1, CHR 0xF2, CHR 0xF3, CHR 0xF4, CHR 0xF5, CHR 0xF6, CHR 0xF8,
      CHR 0xF9, CHR 0xFA, CHR 0xFB, CHR 0xFC, CHR 0xFD, CHR 0xFE]"

definition lower_char :: "char \<Rightarrow> char" where
  "lower_char c = (case map_of (zip capitals smalls) c of Some l \<Rightarrow> l | None \<Rightarrow> c)"

definition lower :: "string \<Rightarrow> string" where
  "lower s = map lower_char s"

definition whitespace :: string where
  "whitespace =
     [CHR 0x09, CHR 0x0A, CHR 0x0B, CHR 0x0C, CHR 0x0D, CHR 0x1C, CHR 0x1D, CHR 0x1E,
      CHR 0x1F, CHR 0x20, CHR 0x85, CHR 0xA0]"

definition is_space :: "char \<Rightarrow> bool" where
  "is_space c = (c \<in> set whitespace)"

definition strip :: "string \<Rightarrow> string" where
  "strip s = rev (dropWhile is_space (rev (dropWhile is_space s)))"

text \<open>\<open>s.split()\<close>: the maximal runs of characters that are not white space.\<close>

function split_ws :: "string \<Rightarrow> string list" where
  "split_ws s =
     (let r = dropWhile is_space s
      in if r = [] then []
         else takeWhile (\<lambda>c. \<not> is_space c) r # split_ws (dropWhile (\<lambda>c. \<not> is_space c) r))"
  by pat_completeness auto
termination
proof (relation "measure length", goal_cases)
  case 1
  show ?case by simp
next
  case (2 s r)
  then obtain x xs where r: "r = x # xs" and x: "\<not> is_space x"
    by (metis hd_dropWhile list.exhaust_sel)
  have "length (dropWhile (\<lambda>c. \<not> is_space c) r) \<le> length xs"
    using x by (simp add: r length_dropWhile_le)
  moreover have "length r \<le> length s"
    using 2 by (simp add: length_dropWhile_le)
  ultimately show ?case by (simp add: r)
qed

declare split_ws.simps [simp del]

text \<open>\<open>s.replace(k, v)\<close> for a key \<open>k\<close> of one character.\<close>

definition replace_char :: "char \<Rightarrow> string \<Rightarrow> string \<Rightarrow> string" where
  "replace_char k v s = concat (map (\<lambda>c. if c = k then v else [c]) s)"

text \<open>
  The table \<open>replace\<close> of the source, in its order. The source has two more keys, after
  the hyphen and after the apostrophe: the strings U+201A U+00C4 U+00EE and U+201A U+00C4
  U+00F4. U+201A is no character of the strings modelled here, so that neither key occurs
  in any of them and the two replacements change nothing.
\<close>

definition replace_table :: "(char \<times> string) list" where
  "replace_table =
     [(CHR ''&'', '' and ''), (CHR ''.'', []), (CHR '','', []), (CHR ''-'', '' ''),
      (CHR 0x27, [])]"

definition normalize_str :: "string \<Rightarrow> string" where
  "normalize_str s =
     (if s = [] then []
      else join '' '' (split_ws (fold (\<lambda>kv. replace_char (fst kv) (snd kv)) replace_table
                                   (strip (lower s)))))"

text \<open>
  The characters that the table replaces, and the words that \<open>split\<close> returns: not
  empty and free of white space.
\<close>

definition key_chars :: "char set" where
  "key_chars = fst ` set replace_table"

definition word :: "string \<Rightarrow> bool" where
  "word w = (w \<noteq> [] \<and> (\<forall>c \<in> set w. \<not> is_space c))"

text \<open>
  \<open>normalize\<close> called on a decoded value: a falsy value of any type gives the empty
  string, and a truthy value that is no \<open>str\<close> has no method \<open>lower\<close>.
\<close>

definition normalize_py :: "json \<Rightarrow> error + string" where
  "normalize_py v =
     (if \<not> truthy v then Inr []
      else case v of JStr s \<Rightarrow> Inr (normalize_str s) | _ \<Rightarrow> Inl AttributeError)"

subsection \<open>The registry and its lookup tables\<close>

text \<open>
  One entry of the council file, in the shape the comment of \<open>load_councils\<close> gives: the
  names are strings, the alias groups are lists of strings, the council number and the
  ESPN ids are any values (\<open>str\<close> is applied to them). A key that the file leaves out is
  \<open>None\<close> or the empty list.
\<close>

record council_info =
  official_name :: "string option"
  official :: "string option"
  council :: "json option"
  aliases :: "(string \<times> string list) list"
  espn_ids :: "json list"

type_synonym councils = "(string \<times> council_info) list"

type_synonym lookup = "string \<rightharpoonup> string"

text \<open>\<open>info.get("official_name") or info.get("official", "")\<close>\<close>

definition official_of :: "council_info \<Rightarrow> string" where
  "official_of info =
     (case official_name info of
        Some s \<Rightarrow> if s \<noteq> [] then s else (case official info of Some t \<Rightarrow> t | None \<Rightarrow> [])
      | None \<Rightarrow> (case official info of Some t \<Rightarrow> t | None \<Rightarrow> []))"

definition add_group :: "string \<Rightarrow> string list \<Rightarrow> lookup \<Rightarrow> lookup" where
  "add_group cid grp alias_lookup = fold (\<lambda>a m. m(normalize_str a \<mapsto> cid)) grp alias_lookup"

definition add_entry :: "string \<times> council_info \<Rightarrow> lookup \<times> lookup \<times> lookup \<Rightarrow> lookup \<times> lookup \<times> lookup" where
  "add_entry e tables =
     (case e of (cid, info) \<Rightarrow>
      case tables of (alias_lookup, espn_id_lookup, council_by_number) \<Rightarrow>
        let num = py_str (case council info of None \<Rightarrow> JStr [] | Some v \<Rightarrow> v);
            council_by_number = council_by_number(num \<mapsto> cid);
            alias_lookup = fold (\<lambda>g m. add_group cid (snd g) m) (aliases info) alias_lookup;
            alias_lookup = (if official_of info \<noteq> []
                            then alias_lookup(normalize_str (official_of info) \<mapsto> cid)
                            else alias_lookup);
            espn_id_lookup = fold (\<lambda>espn_id m. m(py_str espn_id \<mapsto> cid)) (espn_ids info)
                               espn_id_lookup
        in (alias_lookup, espn_id_lookup, council_by_number))"

definition build_lookup :: "councils \<Rightarrow> lookup \<times> lookup \<times> lookup" where
  "build_lookup cs = fold add_entry cs (Map.empty, Map.empty, Map.empty)"

subsection \<open>Resolving a team\<close>

definition fallback_keys :: "string list" where
  "fallback_keys = [''name'', ''displayName'', ''shortDisplayName'', ''location'', ''abbreviation'']"

text \<open>The loop over the fallback fields; \<open>Inr None\<close> is the \<open>return None\<close> after it.\<close>

fun try_fields :: "json \<Rightarrow> lookup \<Rightarrow> string list \<Rightarrow> error + string option" where
  "try_fields team alias_lookup [] = Inr None"
| "try_fields team alias_lookup (key # keys) =
     bind_e (dict_get team key JNull) (\<lambda>v.
       if truthy v then
         bind_e (normalize_py v) (\<lambda>n.
           case alias_lookup n of
             Some cid \<Rightarrow> Inr (Some cid)
           | None \<Rightarrow> try_fields team alias_lookup keys)
       else try_fields team alias_lookup keys)"

definition resolve_team :: "json \<Rightarrow> lookup \<Rightarrow> lookup \<Rightarrow> error + string option" where
  "resolve_team team_obj alias_lookup espn_id_lookup =
     bind_e (dict_get team_obj ''team'' (JObj [])) (\<lambda>team.
     bind_e (dict_get team ''id'' JNull) (\<lambda>team_id.
     bind_e (dict_get team ''displayName'' (JStr [])) (\<lambda>d.
     bind_e (if truthy d then Inr d else dict_get team ''shortDisplayName'' (JStr [])) (\<lambda>display.
       if truthy team_id \<and> espn_id_lookup (py_str team_id) \<noteq> None
       then Inr (espn_id_lookup (py_str team_id))
       else
         bind_e (normalize_py display) (\<lambda>norm.
           case alias_lookup norm of
             Some cid \<Rightarrow> Inr (Some cid)
           | None \<Rightarrow> try_fields team alias_lookup fallback_keys)))))"

subsection \<open>The posted set\<close>

text \<open>
  What a Python \<open>set\<close> can hold of the decoded values: \<open>None\<close>, booleans, integers and
  strings; lists and dicts cannot be hashed. A game id is a \<open>str\<close>, the element
  \<open>KStr game_id\<close>. The matcher only tests membership, and sees the posted set as a set
  of such elements.
\<close>

datatype pykey = KNone | KBool bool | KInt int | KStr string

type_synonym posted_set = "pykey set"

subsection \<open>The matcher: one event of a scoreboard\<close>

text \<open>\<open>game_id = str(event.get("id"))\<close>\<close>

definition game_id_of :: "json \<Rightarrow> error + string" where
  "game_id_of event = bind_e (dict_get event ''id'' JNull) (\<lambda>v. Inr (py_str v))"

text \<open>
  The loop that looks for the competitors tagged \<open>home\<close> and \<open>away\<close>; the last one of
  each tag stays.
\<close>

fun find_home_away :: "json list \<Rightarrow> json option \<times> json option \<Rightarrow> error + json option \<times> json option" where
  "find_home_away [] ha = Inr ha"
| "find_home_away (t # ts) ha =
     bind_e (dict_get t ''homeAway'' JNull) (\<lambda>v.
       if v = JStr ''home'' then find_home_away ts (Some t, snd ha)
       else if v = JStr ''away'' then find_home_away ts (fst ha, Some t)
       else find_home_away ts ha)"

definition not_opt :: "json option \<Rightarrow> bool" where
  "not_opt x = (case x of None \<Rightarrow> True | Some v \<Rightarrow> \<not> truthy v)"

text \<open>
  From \<open>comp = ...\<close> to the choice of \<open>home\<close> and \<open>away\<close>. \<open>Inr None\<close> is the
  \<open>continue\<close> of an event with fewer than two competitors; otherwise the result is the
  competition with its home and its away competitor.
\<close>

definition participants :: "json \<Rightarrow> error + (json \<times> json \<times> json) option" where
  "participants event =
     bind_e (dict_get event ''competitions'' (JArr [JObj []])) (\<lambda>comps.
     bind_e (py_index comps 0) (\<lambda>compt.
     bind_e (dict_get compt ''competitors'' (JArr [])) (\<lambda>competitors.
     bind_e (py_len competitors) (\<lambda>n.
       if n < 2 then Inr None
       else
         bind_e (py_iter competitors) (\<lambda>ts.
         bind_e (find_home_away ts (None, None)) (\<lambda>ha.
           if not_opt (fst ha) \<or> not_opt (snd ha) then
             bind_e (py_index competitors 0) (\<lambda>home.
             bind_e (py_index competitors 1) (\<lambda>away. Inr (Some (compt, home, away))))
           else Inr (Some (compt, the (fst ha), the (snd ha)))))))))"

text \<open>
  The text of the message (from \<open>home_info = ...\<close> to \<open>"\n".join(msg_lines)\<close>) is a
  parameter: a function of the sport label, the competition and the two canonical ids
  that gives the text or raises.
\<close>

type_synonym formatter = "string \<Rightarrow> json \<Rightarrow> string \<Rightarrow> string \<Rightarrow> error + string"

text \<open>\<open>not home_cid\<close>: no canonical id, or the empty one.\<close>

definition no_cid :: "string option \<Rightarrow> bool" where
  "no_cid c = (case c of None \<Rightarrow> True | Some s \<Rightarrow> s = [])"

text \<open>
  The body of the loop over the events: \<open>Inr None\<close> is a \<open>continue\<close>, and
  \<open>Inr (Some (game_id, message))\<close> is the pair appended to \<open>to_post\<close>.
\<close>

definition process_event ::
  "formatter \<Rightarrow> lookup \<Rightarrow> lookup \<Rightarrow> posted_set \<Rightarrow> string \<Rightarrow> json \<Rightarrow> error + (string \<times> string) option" where
  "process_event fmt alias_lookup espn_id_lookup posted sport event =
     bind_e (game_id_of event) (\<lambda>game_id.
       if game_id = [] \<or> KStr game_id \<in> posted then Inr None
       else
         bind_e (participants event) (\<lambda>p.
           case p of
             None \<Rightarrow> Inr None
           | Some (compt, home, away) \<Rightarrow>
               bind_e (resolve_team home alias_lookup espn_id_lookup) (\<lambda>home_cid.
               bind_e (resolve_team away alias_lookup espn_id_lookup) (\<lambda>away_cid.
                 if no_cid home_cid \<or> no_cid away_cid then Inr None
                 else
                   bind_e (fmt sport compt (the home_cid) (the away_cid)) (\<lambda>message.
                     Inr (Some (game_id, message)))))))"

fun collect_events ::
  "formatter \<Rightarrow> lookup \<Rightarrow> lookup \<Rightarrow> posted_set \<Rightarrow> string \<Rightarrow> json list \<Rightarrow> (string \<times> string) list
     \<Rightarrow> error + (string \<times> string) list" where
  "collect_events fmt al el posted sport [] to_post = Inr to_post"
| "collect_events fmt al el posted sport (event # events) to_post =
     bind_e (process_event fmt al el posted sport event) (\<lambda>r.
       collect_events fmt al el posted sport events
         (case r of None \<Rightarrow> to_post | Some gm \<Rightarrow> to_post @ [gm]))"

text \<open>
  The loop over the scoreboards. Each comes with its sport label and with what the
  request gave: an exception, after which the loop goes on with the next one, or the
  decoded body.
\<close>

fun collect_feeds ::
  "formatter \<Rightarrow> lookup \<Rightarrow> lookup \<Rightarrow> posted_set \<Rightarrow> (string \<times> (error + json)) list
     \<Rightarrow> (string \<times> string) list \<Rightarrow> error + (string \<times> string) list" where
  "collect_feeds fmt al el posted [] to_post = Inr to_post"
| "collect_feeds fmt al el posted (feed # feeds) to_post =
     (case snd feed of
        Inl e \<Rightarrow> collect_feeds fmt al el posted feeds to_post
      | Inr data \<Rightarrow>
          bind_e (dict_get data ''events'' (JArr [])) (\<lambda>evs.
          bind_e (py_iter evs) (\<lambda>events.
          bind_e (collect_events fmt al el posted (fst feed) events to_post) (\<lambda>to_post'.
            collect_feeds fmt al el posted feeds to_post'))))"

subsection \<open>The notifier\<close>




subsection \<open>The dedup store\<close>

text \<open>
  The Python \<open>set\<close> that \<open>main\<close> holds is modelled as the list of its elements, without
  repetition. \<open>True\<close> and \<open>1\<close>, and \<open>False\<close> and \<open>0\<close>, are equal in Python: \<open>py_eq\<close>.
  \<open>set_add\<close> is \<open>s.add(k)\<close>, and \<open>py_set\<close> is \<open>set(data)\<close>, which adds the elements of
  the list one by one and raises at the first that cannot be hashed.
\<close>

fun num_val :: "pykey \<Rightarrow> int option" where
  "num_val (KBool b) = Some (if b then 1 else 0)"
| "num_val (KInt i) = Some i"
| "num_val _ = None"

definition py_eq :: "pykey \<Rightarrow> pykey \<Rightarrow> bool" where
  "py_eq a b = (a = b \<or> (num_val a \<noteq> None \<and> num_val a = num_val b))"

definition set_add :: "pykey list \<Rightarrow> pykey \<Rightarrow> pykey list" where
  "set_add xs k = (if \<exists>y \<in> set xs. py_eq k y then xs else xs @ [k])"

fun key_of :: "json \<Rightarrow> error + pykey" where
  "key_of JNull = Inr KNone"
| "key_of (JBool b) = Inr (KBool b)"
| "key_of (JInt i) = Inr (KInt i)"
| "key_of (JStr s) = Inr (KStr s)"
| "key_of (JArr xs) = Inl TypeError"
| "key_of (JObj kvs) = Inl TypeError"

fun py_set :: "json list \<Rightarrow> pykey list \<Rightarrow> error + pykey list" where
  "py_set [] acc = Inr acc"
| "py_set (x # xs) acc = bind_e (key_of x) (\<lambda>k. py_set xs (set_add acc k))"

text \<open>
  The \<open>try\<close> block of \<open>read_posted_set_from_issue\<close>, applied to what \<open>json.loads(body)\<close>
  gave: every exception, also the \<open>TypeError\<close> of \<open>set(data)\<close>, gives the empty set.
\<close>

definition posted_of_parsed :: "error + json \<Rightarrow> pykey list" where
  "posted_of_parsed parsed =
     (case parsed of
        Inl e \<Rightarrow> []
      | Inr data \<Rightarrow>
          (case data of
             JArr xs \<Rightarrow> (case py_set xs [] of Inl e \<Rightarrow> [] | Inr s \<Rightarrow> s)
           | _ \<Rightarrow> []))"

text \<open>
  \<open>json.loads\<close> is a parameter, a function from the text to a value or an exception.
  Applied to a decoded value that is no \<open>str\<close> it raises \<open>TypeError\<close>.
\<close>

definition loads_value :: "(string \<Rightarrow> error + json) \<Rightarrow> json \<Rightarrow> error + json" where
  "loads_value loads body = (case body of JStr s \<Rightarrow> loads s | _ \<Rightarrow> Inl TypeError)"

text \<open>
  \<open>read_posted_set_from_issue\<close>, applied to what the request gave: an exception (of the
  request or of \<open>raise_for_status\<close>), which the function lets through, or the decoded
  issue.
\<close>

definition read_posted_set_from_issue ::
  "(string \<Rightarrow> error + json) \<Rightarrow> error + json \<Rightarrow> error + pykey list" where
  "read_posted_set_from_issue loads response =
     bind_e response (\<lambda>issue.
     bind_e (dict_get issue ''body'' JNull) (\<lambda>b.
       Inr (posted_of_parsed (loads_value loads (if truthy b then b else JStr [])))))"









subsection \<open>The run\<close>






text \<open>The events of a decoded scoreboard: \<open>data.get("events", [])\<close>, iterated.\<close>

definition events_of :: "json \<Rightarrow> error + json list" where
  "events_of data = bind_e (dict_get data ''events'' (JArr [])) py_iter"

subsection \<open>The order of resolution, as the specification words it\<close>







subsection \<open>Which entry registers an alias\<close>

text \<open>
  The keys that one entry writes into the alias table: its aliases and its official
  name, normalized. \<open>last_registering\<close> and \<open>first_registering\<close> give the canonical id of
  the last and of the first entry of the registry that writes the key \<open>k\<close>.
\<close>

definition entry_aliases :: "council_info \<Rightarrow> string list" where
  "entry_aliases info =
     map normalize_str (concat (map snd (aliases info)))
     @ (if official_of info \<noteq> [] then [normalize_str (official_of info)] else [])"

definition last_registering :: "councils \<Rightarrow> string \<Rightarrow> string option" where
  "last_registering cs k =
     map_option fst (find (\<lambda>e. k \<in> set (entry_aliases (snd e))) (rev cs))"

definition first_registering :: "councils \<Rightarrow> string \<Rightarrow> string option" where
  "first_registering cs k =
     map_option fst (find (\<lambda>e. k \<in> set (entry_aliases (snd e))) cs)"

subsection \<open>Sample inputs\<close>

text \<open>A registry of two schools that both list the name \<open>State\<close>.\<close>

definition two_states :: councils where
  "two_states =
     [(''alpha'', \<lparr>official_name = Some ''Alpha U'', official = None, council = Some (JInt 100),
                  aliases = [(''common'', [''State''])], espn_ids = []\<rparr>),
      (''beta'', \<lparr>official_name = Some ''Beta Tech'', official = None, council = Some (JInt 200),
                 aliases = [(''espn'', [''STATE''])], espn_ids = [JInt 77]\<rparr>)]"


definition sample_aliases :: lookup where
  "sample_aliases = [''foo u'' \<mapsto> ''A'', ''bar tech'' \<mapsto> ''B'']"

definition competitor :: "string \<Rightarrow> json \<Rightarrow> string \<Rightarrow> json" where
  "competitor home_away team_id display =
     JObj [(''homeAway'', JStr home_away),
           (''team'', JObj [(''id'', team_id), (''displayName'', JStr display)])]"

definition event_of :: "(string \<times> json) list \<Rightarrow> json \<Rightarrow> json \<Rightarrow> json" where
  "event_of id_field home away =
     JObj (id_field @ [(''competitions'', JArr [JObj [(''competitors'', JArr [home, away])]])])"

definition foo_home :: json where
  "foo_home = competitor ''home'' (JStr ''1'') ''Foo U''"

definition bar_away :: json where
  "bar_away = competitor ''away'' (JStr ''2'') ''Bar Tech''"

definition baz_away :: json where
  "baz_away = competitor ''away'' (JStr ''3'') ''Baz College''"

definition plain_fmt :: formatter where
  "plain_fmt sport compt home_cid away_cid = Inr (sport @ '': '' @ home_cid @ '' vs '' @ away_cid)"

definition posted_event :: json where
  "posted_event = JObj [(''id'', JStr ''401''), (''competitions'', JArr [])]"


text \<open>
  Two scoreboards that list the same event id, two that list different ids, and a
  scoreboard of three events: one posted before, one new, one with an unknown team.
\<close>

definition scoreboard :: "json list \<Rightarrow> error + json" where
  "scoreboard events = Inr (JObj [(''events'', JArr events)])"



definition mixed_feeds :: "(string \<times> (error + json)) list" where
  "mixed_feeds =
     [(''basketball'', Inl RequestException),
      (''football'', scoreboard [posted_event,
                                event_of [(''id'', JStr ''402'')] foo_home bar_away,
                                event_of [(''id'', JStr ''403'')] foo_home baz_away])]"




section \<open>Properties\<close>

subsection \<open>The lookup builder\<close>

lemma add_group_apply:
  "add_group cid grp m k = (if k \<in> normalize_str ` set grp then Some cid else m k)"
  unfolding add_group_def by (induction grp arbitrary: m) auto

lemma fold_add_group_apply:
  "fold (\<lambda>g m. add_group cid (snd g) m) gs m k =
     (if k \<in> normalize_str ` set (concat (map snd gs)) then Some cid else m k)"
  by (induction gs arbitrary: m) (auto simp: add_group_apply)

lemma add_entry_alias:
  "fst (add_entry (cid, info) (al, el, cn)) k =
     (if k \<in> set (entry_aliases info) then Some cid else al k)"
  by (auto simp: add_entry_def Let_def entry_aliases_def fold_add_group_apply)

lemma find_snoc:
  "find P (xs @ [x]) = (case find P xs of Some y \<Rightarrow> Some y | None \<Rightarrow> if P x then Some x else None)"
  by (induction xs) auto

lemma fold_add_entry_alias:
  "fst (fold add_entry cs t) k =
     (case find (\<lambda>e. k \<in> set (entry_aliases (snd e))) (rev cs) of
        Some e \<Rightarrow> Some (fst e) | None \<Rightarrow> fst t k)"
proof (induction cs arbitrary: t)
  case Nil
  show ?case by simp
next
  case (Cons e cs)
  obtain cid info where e: "e = (cid, info)" by (cases e)
  obtain al el cn where t: "t = (al, el, cn)" by (cases t)
  show ?case
    by (simp add: Cons.IH find_snoc e t add_entry_alias split: option.splits)
qed

text \<open>
  C5, as the code has it. The alias table maps a key to the canonical id of the last
  entry of the registry that registers it (and to nothing when no entry does): on a
  conflict the entry registered last wins.
\<close>

theorem alias_last_registered_wins:
  "fst (build_lookup cs) k = last_registering cs k"
  by (simp add: build_lookup_def last_registering_def fold_add_entry_alias split: option.splits)

text \<open>
  C5, as the claim words it, fails on the registry \<open>two_states\<close>: both entries register
  the alias \<open>state\<close>, the first of them is \<open>alpha\<close>, and the table gives \<open>beta\<close>.
\<close>

theorem alias_first_registered_counterexample:
  "first_registering two_states ''state'' = Some ''alpha''
   \<and> fst (build_lookup two_states) ''state'' = Some ''beta''
   \<and> fst (build_lookup two_states) ''state'' \<noteq> first_registering two_states ''state''"
  by code_simp

subsection \<open>The resolver\<close>




lemma process_event_SomeD:
  assumes "process_event fmt al el posted sport event = Inr (Some gm)"
  shows "\<exists>compt home away hc ac.
           game_id_of event = Inr (fst gm) \<and> fst gm \<noteq> [] \<and> KStr (fst gm) \<notin> posted
         \<and> participants event = Inr (Some (compt, home, away))
         \<and> resolve_team home al el = Inr (Some hc) \<and> hc \<noteq> []
         \<and> resolve_team away al el = Inr (Some ac) \<and> ac \<noteq> []
         \<and> fmt sport compt hc ac = Inr (snd gm)"
  using assms
  by (auto simp: process_event_def bind_e_def no_cid_def
           split: sum.splits option.splits if_splits prod.splits)

lemma collect_events_mem:
  assumes "collect_events fmt al el posted sport events acc = Inr to_post" "gm \<in> set to_post"
  shows "gm \<in> set acc \<or> (\<exists>event \<in> set events. process_event fmt al el posted sport event = Inr (Some gm))"
  using assms
proof (induction events arbitrary: acc)
  case Nil
  then show ?case by simp
next
  case (Cons ev events)
  then show ?case
    by (fastforce simp: bind_e_def split: sum.splits option.splits)
qed

lemma collect_feeds_mem:
  assumes "collect_feeds fmt al el posted feeds acc = Inr to_post" "gm \<in> set to_post"
  shows "gm \<in> set acc \<or> (\<exists>feed \<in> set feeds. \<exists>data events. snd feed = Inr data \<and> events_of data = Inr events
           \<and> (\<exists>event \<in> set events. process_event fmt al el posted (fst feed) event = Inr (Some gm)))"
  using assms
proof (induction feeds arbitrary: acc)
  case Nil
  then show ?case by simp
next
  case (Cons feed feeds)
  show ?case
  proof (cases "snd feed")
    case (Inl e)
    with Cons show ?thesis by auto
  next
    case (Inr data)
    with Cons.prems obtain events tp where
      ev: "events_of data = Inr events"
      and ce: "collect_events fmt al el posted (fst feed) events acc = Inr tp"
      and cf: "collect_feeds fmt al el posted feeds tp = Inr to_post"
      by (auto simp: bind_e_def events_of_def split: sum.splits)
    from Cons.IH [OF cf Cons.prems(2)] show ?thesis
    proof
      assume "gm \<in> set tp"
      from collect_events_mem [OF ce this] show ?thesis
        using Inr ev by auto
    next
      assume "\<exists>feed\<in>set feeds. \<exists>data events. snd feed = Inr data \<and> events_of data = Inr events
           \<and> (\<exists>event \<in> set events. process_event fmt al el posted (fst feed) event = Inr (Some gm))"
      then show ?thesis by auto
    qed
  qed
qed

lemma to_post_not_posted:
  assumes "collect_feeds fmt al el posted feeds [] = Inr to_post" "gm \<in> set to_post"
  shows "KStr (fst gm) \<notin> posted"
proof -
  from collect_feeds_mem [OF assms] obtain sport event where
    "process_event fmt al el posted sport event = Inr (Some gm)" by auto
  from process_event_SomeD [OF this] show ?thesis by blast
qed

subsection \<open>The notifier and the store\<close>
















subsection \<open>The matcher\<close>

text \<open>
  C2. An event gives a pair for \<open>to_post\<close> only if \<open>resolve_team\<close> returns a canonical
  id for both of its participants; and when \<open>resolve_team\<close> returns \<open>None\<close> for the home
  or for the away participant, the event gives no pair.
\<close>

theorem match_needs_both_participants:
  "(process_event fmt al el posted sport event = Inr (Some gm) \<longrightarrow>
      (\<exists>compt home away hc ac.
          participants event = Inr (Some (compt, home, away))
        \<and> resolve_team home al el = Inr (Some hc)
        \<and> resolve_team away al el = Inr (Some ac)))
   \<and> (participants event' = Inr (Some (compt', home', away'))
        \<and> (resolve_team home' al el = Inr None \<or> resolve_team away' al el = Inr None) \<longrightarrow>
      (\<forall>gm'. process_event fmt al el posted sport event' \<noteq> Inr (Some gm')))"
proof (intro conjI impI)
  assume "process_event fmt al el posted sport event = Inr (Some gm)"
  from process_event_SomeD [OF this]
  show "\<exists>compt home away hc ac.
          participants event = Inr (Some (compt, home, away))
        \<and> resolve_team home al el = Inr (Some hc)
        \<and> resolve_team away al el = Inr (Some ac)"
    by blast
next
  assume h: "participants event' = Inr (Some (compt', home', away'))
        \<and> (resolve_team home' al el = Inr None \<or> resolve_team away' al el = Inr None)"
  show "\<forall>gm'. process_event fmt al el posted sport event' \<noteq> Inr (Some gm')"
  proof (intro allI notI)
    fix gm' assume "process_event fmt al el posted sport event' = Inr (Some gm')"
    from process_event_SomeD [OF this] h show False by auto
  qed
qed

text \<open>
  Foo U against Bar Tech is a match; Foo U against Baz College, which the registry does
  not know, is none.
\<close>

theorem match_needs_both_witness:
  "process_event plain_fmt sample_aliases Map.empty {} ''basketball''
     (event_of [(''id'', JStr ''401'')] foo_home bar_away)
     = Inr (Some (''401'', ''basketball: A vs B''))
   \<and> resolve_team foo_home sample_aliases Map.empty = Inr (Some ''A'')
   \<and> resolve_team bar_away sample_aliases Map.empty = Inr (Some ''B'')
   \<and> resolve_team baz_away sample_aliases Map.empty = Inr None
   \<and> process_event plain_fmt sample_aliases Map.empty {} ''basketball''
       (event_of [(''id'', JStr ''403'')] foo_home baz_away)
       \<noteq> Inr (Some (''403'', ''basketball: A vs ''))"
proof -
  let ?e1 = "event_of [(''id'', JStr ''401'')] foo_home bar_away"
  let ?e2 = "event_of [(''id'', JStr ''403'')] foo_home baz_away"
  let ?c = "JObj [(''competitors'', JArr [foo_home, baz_away])]"
  have p1: "process_event plain_fmt sample_aliases Map.empty {} ''basketball'' ?e1
              = Inr (Some (''401'', ''basketball: A vs B''))"
    by code_simp
  have ra: "resolve_team foo_home sample_aliases Map.empty = Inr (Some ''A'')" by code_simp
  have rb: "resolve_team bar_away sample_aliases Map.empty = Inr (Some ''B'')" by code_simp
  have rz: "resolve_team baz_away sample_aliases Map.empty = Inr None" by code_simp
  have p2: "participants ?e2 = Inr (Some (?c, foo_home, baz_away))" by code_simp
  from match_needs_both_participants
         [of plain_fmt sample_aliases Map.empty "{}" "''basketball''" ?e1
             "(''401'', ''basketball: A vs B'')" ?e2 ?c foo_home baz_away]
       p2 rz
  have "process_event plain_fmt sample_aliases Map.empty {} ''basketball'' ?e2
          \<noteq> Inr (Some (''403'', ''basketball: A vs ''))"
    by blast
  with p1 ra rb rz show ?thesis by (intro conjI)
qed

lemma show_nat_nonempty: "show_nat n \<noteq> []"
  by (subst show_nat.simps) simp

lemma py_repr_nonempty: "py_repr v \<noteq> []"
  by (cases v) (auto simp: show_int_def show_nat_nonempty repr_str_def Let_def)


lemma process_event_posted:
  assumes "game_id_of event = Inr g" "KStr g \<in> posted"
  shows "process_event fmt al el posted sport event = Inr None"
  using assms by (simp add: process_event_def bind_e_def)

text \<open>
  C3. An event whose id is in the posted set at the start of the run is skipped at once,
  whatever the rest of the event holds, and no pair of \<open>to_post\<close> carries an id of the
  posted set: no message goes out for it.
\<close>

theorem posted_event_skipped:
  "(game_id_of event = Inr g \<and> KStr g \<in> posted \<longrightarrow>
      process_event fmt al el posted sport event = Inr None)
   \<and> (collect_feeds fmt al el posted feeds [] = Inr to_post \<and> KStr g' \<in> posted \<longrightarrow>
        g' \<notin> fst ` set to_post)"
proof (intro conjI impI)
  assume "game_id_of event = Inr g \<and> KStr g \<in> posted"
  then show "process_event fmt al el posted sport event = Inr None"
    by (simp add: process_event_posted)
next
  assume h: "collect_feeds fmt al el posted feeds [] = Inr to_post \<and> KStr g' \<in> posted"
  show "g' \<notin> fst ` set to_post"
  proof
    assume "g' \<in> fst ` set to_post"
    then obtain gm where "gm \<in> set to_post" "fst gm = g'" by auto
    with to_post_not_posted [of fmt al el posted feeds to_post gm] h show False by simp
  qed
qed

text \<open>
  The event 401 has an empty list of competitions, on which \<open>[0]\<close> raises; with 401 in
  the posted set it is skipped before that, and the scoreboard gives the one new match.
\<close>

theorem posted_event_skipped_witness:
  "game_id_of posted_event = Inr ''401''
   \<and> process_event plain_fmt sample_aliases Map.empty {KStr ''401''} ''football'' posted_event = Inr None
   \<and> process_event plain_fmt sample_aliases Map.empty {} ''football'' posted_event = Inl IndexError
   \<and> collect_feeds plain_fmt sample_aliases Map.empty {KStr ''401''} mixed_feeds []
        = Inr [(''402'', ''football: A vs B'')]
   \<and> ''401'' \<notin> fst ` set [(''402'', ''football: A vs B'')]"
proof -
  have g: "game_id_of posted_event = Inr ''401''" by code_simp
  have m: "KStr ''401'' \<in> {KStr ''401''}" by simp
  have e: "process_event plain_fmt sample_aliases Map.empty {} ''football'' posted_event = Inl IndexError"
    by code_simp
  have c: "collect_feeds plain_fmt sample_aliases Map.empty {KStr ''401''} mixed_feeds []
        = Inr [(''402'', ''football: A vs B'')]"
    by code_simp
  note t = posted_event_skipped [of posted_event "''401''" "{KStr ''401''}" plain_fmt sample_aliases
             Map.empty "''football''" mixed_feeds "[(''402'', ''football: A vs B'')]" "''401''"]
  from t g m have s: "process_event plain_fmt sample_aliases Map.empty {KStr ''401''} ''football'' posted_event = Inr None"
    by blast
  from t c m have n: "''401'' \<notin> fst ` set [(''402'', ''football: A vs B'')]"
    by blast
  from g s e c n show ?thesis by (intro conjI)
qed






subsection \<open>The normalizer\<close>

lemma smalls_not_capitals: "\<forall>l \<in> set smalls. l \<notin> set capitals"
  by code_simp

lemma lower_char_fixed: "c \<notin> set capitals \<Longrightarrow> lower_char c = c"
proof -
  assume "c \<notin> set capitals"
  then have "c \<notin> fst ` set (zip capitals smalls)"
    by (auto dest: set_zip_leftD)
  then have "map_of (zip capitals smalls) c = None"
    by (simp add: map_of_eq_None_iff)
  then show ?thesis by (simp add: lower_char_def)
qed

lemma lower_char_not_capital: "lower_char c \<notin> set capitals"
proof (cases "map_of (zip capitals smalls) c")
  case None
  then have "c \<notin> fst ` set (zip capitals smalls)" by (simp add: map_of_eq_None_iff)
  moreover have "length capitals = length smalls" by (simp add: capitals_def smalls_def)
  then have "fst ` set (zip capitals smalls) = set capitals"
    by (metis map_fst_zip set_map)
  ultimately have "c \<notin> set capitals" by simp
  with None show ?thesis by (simp add: lower_char_def)
next
  case (Some l)
  then have "l \<in> set smalls" by (auto dest!: map_of_SomeD set_zip_rightD)
  with smalls_not_capitals Some show ?thesis by (simp add: lower_char_def)
qed

lemma lower_fixed: "\<forall>c \<in> set t. c \<notin> set capitals \<Longrightarrow> lower t = t"
  by (simp add: lower_def lower_char_fixed map_idI)

lemma set_lower_not_capital: "c \<in> set (lower s) \<Longrightarrow> c \<notin> set capitals"
  by (auto simp: lower_def lower_char_not_capital)

lemma set_replace_char:
  "set (replace_char k v s) = (set s - {k}) \<union> (if k \<in> set s then set v else {})"
  by (auto simp: replace_char_def)

lemma replace_char_absent: "k \<notin> set s \<Longrightarrow> replace_char k v s = s"
  by (induction s) (auto simp: replace_char_def)

lemma set_strip: "set (strip s) \<subseteq> set s"
proof -
  have "set (strip s) \<subseteq> set (dropWhile is_space s)"
    unfolding strip_def using set_dropWhileD [of _ is_space "rev (dropWhile is_space s)"] by auto
  also have "\<dots> \<subseteq> set s" using set_dropWhileD [of _ is_space s] by blast
  finally show ?thesis .
qed

lemma replaced_chars:
  assumes "c \<in> set (fold (\<lambda>kv. replace_char (fst kv) (snd kv)) replace_table s)"
  shows "c \<notin> key_chars \<and> (c \<in> set s \<or> c \<in> set '' and'')"
  using assms
  by (simp add: replace_table_def key_chars_def set_replace_char split: if_splits) auto

lemma replace_table_absent:
  assumes "\<forall>c \<in> set t. c \<notin> key_chars"
  shows "fold (\<lambda>kv. replace_char (fst kv) (snd kv)) replace_table t = t"
proof -
  have "CHR ''&'' \<notin> set t" "CHR ''.'' \<notin> set t" "CHR '','' \<notin> set t"
    "CHR ''-'' \<notin> set t" "CHR 0x27 \<notin> set t"
    using assms by (auto simp: key_chars_def replace_table_def)
  then show ?thesis
    by (simp add: replace_table_def replace_char_absent)
qed


lemma split_ws_empty: "dropWhile is_space s = [] \<Longrightarrow> split_ws s = []"
  by (subst split_ws.simps) simp

lemma split_ws_nonempty:
  assumes "dropWhile is_space s \<noteq> []"
  shows "split_ws s = takeWhile (\<lambda>c. \<not> is_space c) (dropWhile is_space s)
           # split_ws (dropWhile (\<lambda>c. \<not> is_space c) (dropWhile is_space s))"
  by (subst split_ws.simps) (simp only: Let_def assms if_False)

lemma split_ws_Nil: "split_ws [] = []"
  by (simp add: split_ws_empty)

lemma split_ws_space: "is_space c \<Longrightarrow> split_ws (c # s) = split_ws s"
proof (cases "dropWhile is_space s = []")
  case True
  assume "is_space c"
  with True show ?thesis by (simp add: split_ws_empty)
next
  case False
  assume c: "is_space c"
  then have d: "dropWhile is_space (c # s) = dropWhile is_space s" by simp
  with False have "dropWhile is_space (c # s) \<noteq> []" by simp
  from split_ws_nonempty [OF this] split_ws_nonempty [OF False] show ?thesis
    by (simp only: d)
qed

lemma split_ws_word:
  assumes "w \<noteq> []" "\<forall>c \<in> set w. \<not> is_space c" "s = [] \<or> is_space (hd s)"
  shows "split_ws (w @ s) = w # split_ws s"
proof -
  from assms obtain x xs where w: "w = x # xs" by (cases w) auto
  have nx: "\<not> is_space x" using assms(2) w by simp
  have d: "dropWhile is_space (w @ s) = w @ s" using nx w by simp
  have t: "takeWhile (\<lambda>c. \<not> is_space c) (w @ s) = w"
    using assms by (cases s) (auto simp: takeWhile_append2)
  have r: "dropWhile (\<lambda>c. \<not> is_space c) (w @ s) = s"
    using assms by (cases s) (auto simp: dropWhile_append2)
  have "w @ s \<noteq> []" using w by simp
  then have "dropWhile is_space (w @ s) \<noteq> []" by (simp add: d)
  from split_ws_nonempty [OF this] show ?thesis
    by (simp only: d t r)
qed

lemma split_ws_words:
  "w \<in> set (split_ws s) \<Longrightarrow> w \<noteq> [] \<and> (\<forall>c \<in> set w. \<not> is_space c) \<and> set w \<subseteq> set s"
proof (induction s arbitrary: w rule: split_ws.induct)
  case (1 s)
  let ?r = "dropWhile is_space s"
  show ?case
  proof (cases "?r = []")
    case True
    with "1.prems" show ?thesis by (simp add: split_ws_empty)
  next
    case False
    let ?h = "takeWhile (\<lambda>c. \<not> is_space c) ?r"
    let ?rest = "dropWhile (\<lambda>c. \<not> is_space c) ?r"
    from "1.prems" have "w \<in> set (?h # split_ws ?rest)"
      by (simp only: split_ws_nonempty [OF False])
    then have "w = ?h \<or> w \<in> set (split_ws ?rest)" by simp
    then show ?thesis
    proof
      assume w: "w = ?h"
      from False have "\<not> is_space (hd ?r)" by (rule hd_dropWhile)
      with False have "?h \<noteq> []" by (cases ?r) auto
      moreover have "\<forall>c \<in> set ?h. \<not> is_space c"
        using set_takeWhileD [of _ "\<lambda>c. \<not> is_space c" ?r] by blast
      moreover have "set ?h \<subseteq> set ?r"
        using set_takeWhileD [of _ "\<lambda>c. \<not> is_space c" ?r] by blast
      moreover have "set ?r \<subseteq> set s"
        using set_dropWhileD [of _ is_space s] by blast
      ultimately show ?thesis unfolding w by blast
    next
      assume "w \<in> set (split_ws ?rest)"
      from "1.IH" [OF refl False this]
      have "w \<noteq> [] \<and> (\<forall>c \<in> set w. \<not> is_space c) \<and> set w \<subseteq> set ?rest" .
      moreover have "set ?rest \<subseteq> set ?r"
        using set_dropWhileD [of _ "\<lambda>c. \<not> is_space c" ?r] by blast
      moreover have "set ?r \<subseteq> set s"
        using set_dropWhileD [of _ is_space s] by blast
      ultimately show ?thesis by blast
    qed
  qed
qed


lemma space_is_space: "is_space (CHR '' '')"
  by (simp add: is_space_def whitespace_def)

lemma split_ws_join:
  "\<forall>w \<in> set ws. word w \<Longrightarrow> split_ws (join '' '' ws) = ws"
proof (induction "'' ''" ws rule: join.induct)
  case 1
  show ?case by (simp add: split_ws_Nil)
next
  case (2 x)
  then have "split_ws (x @ []) = x # split_ws []"
    by (intro split_ws_word) (simp_all add: word_def)
  then show ?case by (simp add: split_ws_Nil)
next
  case (3 x y ys)
  from 3 have x: "x \<noteq> []" "\<forall>c \<in> set x. \<not> is_space c" by (simp_all add: word_def)
  have "split_ws (x @ (CHR '' '' # join '' '' (y # ys))) = x # split_ws (CHR '' '' # join '' '' (y # ys))"
    using x by (intro split_ws_word) (simp_all add: space_is_space)
  also have "split_ws (CHR '' '' # join '' '' (y # ys)) = split_ws (join '' '' (y # ys))"
    by (rule split_ws_space [OF space_is_space])
  also have "\<dots> = y # ys" using 3 by simp
  finally show ?case by simp
qed

lemma set_join: "set (join sep ws) \<subseteq> set sep \<union> \<Union> (set ` set ws)"
  by (induction sep ws rule: join.induct) auto

lemma hd_join: "ws \<noteq> [] \<Longrightarrow> hd ws \<noteq> [] \<Longrightarrow> hd (join sep ws) = hd (hd ws)"
  by (induction sep ws rule: join.induct) auto

lemma join_nonempty: "ws \<noteq> [] \<Longrightarrow> hd ws \<noteq> [] \<Longrightarrow> join sep ws \<noteq> []"
  by (induction sep ws rule: join.induct) auto

lemma last_join:
  "ws \<noteq> [] \<Longrightarrow> \<forall>w \<in> set ws. w \<noteq> [] \<Longrightarrow> last (join sep ws) = last (last ws)"
proof (induction sep ws rule: join.induct)
  case (1 sep)
  then show ?case by simp
next
  case (2 sep x)
  then show ?case by simp
next
  case (3 sep x y ys)
  have "join sep (y # ys) \<noteq> []"
    using "3.prems" by (intro join_nonempty) simp_all
  with 3 show ?case by simp
qed

lemma strip_fixed:
  assumes "t \<noteq> []" "\<not> is_space (hd t)" "\<not> is_space (last t)"
  shows "strip t = t"
proof -
  from assms have d: "dropWhile is_space t = t" by (cases t) auto
  from assms have "rev t \<noteq> []" "\<not> is_space (hd (rev t))" by (simp_all add: hd_rev)
  then have "dropWhile is_space (rev t) = rev t" by (cases "rev t") auto
  with d show ?thesis by (simp add: strip_def)
qed

lemma strip_join:
  assumes "ws \<noteq> []" "\<forall>w \<in> set ws. word w"
  shows "strip (join '' '' ws) = join '' '' ws"
proof -
  from assms have h: "word (hd ws)" and l: "word (last ws)" by simp_all
  from assms have ne: "\<forall>w \<in> set ws. w \<noteq> []" by (simp add: word_def)
  from h have hne: "hd ws \<noteq> []" by (simp add: word_def)
  have 1: "join '' '' ws \<noteq> []" using assms(1) hne by (rule join_nonempty)
  have "hd (join '' '' ws) = hd (hd ws)" using assms(1) hne by (rule hd_join)
  with h hne have 2: "\<not> is_space (hd (join '' '' ws))" by (simp add: word_def)
  have "last (join '' '' ws) = last (last ws)" using assms(1) ne by (rule last_join)
  with l have 3: "\<not> is_space (last (join '' '' ws))" by (simp add: word_def)
  from 1 2 3 show ?thesis by (rule strip_fixed)
qed

lemma and_chars: "c \<in> set '' and'' \<Longrightarrow> c \<notin> set capitals \<and> c \<notin> key_chars"
  by (auto simp: capitals_def key_chars_def replace_table_def)

text \<open>
  C7. The normalizer is idempotent: normalizing a normalized string gives the same
  string.
\<close>

theorem normalize_idempotent: "normalize_str (normalize_str s) = normalize_str s"
proof (cases "s = []")
  case True
  then show ?thesis by (simp add: normalize_str_def)
next
  case False
  define r where "r = fold (\<lambda>kv. replace_char (fst kv) (snd kv)) replace_table (strip (lower s))"
  define ws where "ws = split_ws r"
  define t where "t = join '' '' ws"
  have n: "normalize_str s = t"
    using False by (simp add: normalize_str_def t_def ws_def r_def)
  show ?thesis
  proof (cases "ws = []")
    case True
    then have "t = []" by (simp add: t_def)
    then have "normalize_str t = t" by (simp add: normalize_str_def)
    then show ?thesis by (simp only: n)
  next
    case ne: False
    have words: "\<forall>w \<in> set ws. word w"
      using split_ws_words [of _ r] by (auto simp: ws_def word_def)
    have sub: "\<forall>w \<in> set ws. set w \<subseteq> set r"
      using split_ws_words [of _ r] by (auto simp: ws_def)
    have rc: "c \<notin> set capitals \<and> c \<notin> key_chars" if "c \<in> set r" for c
    proof -
      from that replaced_chars [of c "strip (lower s)"]
      have k: "c \<notin> key_chars" and o: "c \<in> set (strip (lower s)) \<or> c \<in> set '' and''"
        by (simp_all add: r_def)
      from o have "c \<notin> set capitals"
        using set_strip [of "lower s"] set_lower_not_capital [of c s] and_chars [of c] by blast
      with k show ?thesis by simp
    qed
    have tc: "c \<notin> set capitals \<and> c \<notin> key_chars" if "c \<in> set t" for c
    proof -
      from that set_join [of "'' ''" ws] have "c = CHR '' '' \<or> (\<exists>w \<in> set ws. c \<in> set w)"
        by (auto simp: t_def)
      then show ?thesis
      proof
        assume "c = CHR '' ''"
        then show ?thesis using and_chars [of c] by simp
      next
        assume "\<exists>w \<in> set ws. c \<in> set w"
        with sub have "c \<in> set r" by blast
        then show ?thesis by (rule rc)
      qed
    qed
    from ne words have "word (hd ws)" by simp
    with ne have tne: "t \<noteq> []" by (simp add: t_def join_nonempty word_def)
    have l: "lower t = t" using tc by (intro lower_fixed) blast
    have st: "strip t = t" unfolding t_def using ne words by (rule strip_join)
    have rp: "fold (\<lambda>kv. replace_char (fst kv) (snd kv)) replace_table t = t"
      using tc by (intro replace_table_absent) blast
    have sp: "split_ws t = ws" unfolding t_def using words by (rule split_ws_join)
    have "normalize_str t = t"
      using tne by (simp add: normalize_str_def l st rp sp) (simp add: t_def)
    then show ?thesis by (simp only: n)
  qed
qed

end
